theory Spec2Isabelle
  imports Main "HOL-Library.Word"
begin

unbundle bit_operations_syntax

section \<open>Machine types\<close>

text \<open>
  \<open>target_size_t\<close> is the unsigned 32-bit address and data type of the RV32 target;
  \<open>std::size_t\<close> is the host's unsigned 64-bit size type.
\<close>

type_synonym target_size_t = "32 word"
type_synonym size_t = "64 word"

section \<open>Linker: evaluation of immediates (include/linker/evaluate.h)\<close>

datatype rel_operand = HI | LO | PCREL_HI | PCREL_LO

datatype tree_operator = ADD | SUB | END

datatype immediate =
    IntImmediate target_size_t
  | StrImmediate string
  | RelImmediate rel_operand immediate
  | TreeImmediate "(immediate \<times> tree_operator) list"

text \<open>
  The two ways the linker's checks abort: \<open>panic(fmt, ...)\<close> with its formatted message,
  and a failed \<open>runtime_assert\<close>.
\<close>

datatype link_error = Panic string | RuntimeAssert

definition unknown_symbol :: "string \<Rightarrow> string" where
  "unknown_symbol str = ''Unknown symbol '' @ [CHR 0x22] @ str @ [CHR 0x22]"

text \<open>
  The evaluator's state. \<open>local_table\<close> is the table of the file being linked, as set by
  \<open>set_local\<close>; \<open>get_location()\<close> of a symbol is its address.
\<close>

record evaluator =
  global_table :: "string \<rightharpoonup> target_size_t"
  local_table :: "string \<rightharpoonup> target_size_t"
  position :: size_t

definition get_symbol_position :: "evaluator \<Rightarrow> string \<Rightarrow> link_error + target_size_t" where
  "get_symbol_position ev str =
     (case local_table ev str of
        Some loc \<Rightarrow> Inr loc
      | None \<Rightarrow>
          (case global_table ev str of
             Some loc \<Rightarrow> Inr loc
           | None \<Rightarrow> Inl (Panic (unknown_symbol str))))"

text \<open>
  Modelled from the spec: \<open>split_lo_hi\<close> (utility.h) is not among the sources. The spec
  gives its two halves as \<open>(v + 0x800) >> 12\<close> and the sign-extended low 12 bits of \<open>v\<close>.
\<close>

record lo_hi =
  lo :: target_size_t
  hi :: target_size_t

definition split_lo_hi :: "target_size_t \<Rightarrow> lo_hi" where
  "split_lo_hi num = \<lparr>lo = signed_take_bit 11 num, hi = drop_bit 12 (num + 0x800)\<rparr>"

text \<open>
  \<open>evaluate\<close>, \<open>evaluate_tree\<close> and the \<open>for\<close> loop of \<open>evaluate_tree\<close>, whose state is
  \<open>(last_op, result)\<close>; each element is evaluated before \<open>last_op\<close> is inspected, and the
  assertion \<open>last_op == END\<close> follows the loop.

  In the two PC-relative cases \<open>value - this->position\<close> mixes the 32-bit \<open>value\<close> with the
  64-bit \<open>position\<close>: the subtraction, the shift and the mask are done at 64 bits, and the
  \<open>return\<close> truncates to \<open>target_size_t\<close>.
\<close>

fun evaluate :: "evaluator \<Rightarrow> immediate \<Rightarrow> link_error + target_size_t"
  and evaluate_tree :: "evaluator \<Rightarrow> (immediate \<times> tree_operator) list
      \<Rightarrow> link_error + target_size_t"
  and evaluate_tree_loop :: "evaluator \<Rightarrow> (immediate \<times> tree_operator) list
      \<Rightarrow> tree_operator \<Rightarrow> target_size_t \<Rightarrow> link_error + (tree_operator \<times> target_size_t)"
where
  "evaluate ev (IntImmediate n) = Inr n"
| "evaluate ev (StrImmediate s) = get_symbol_position ev s"
| "evaluate ev (RelImmediate operand inner) =
     (case evaluate ev inner of
        Inl e \<Rightarrow> Inl e
      | Inr v \<Rightarrow>
          (case operand of
             HI \<Rightarrow> Inr (hi (split_lo_hi v))
           | LO \<Rightarrow> Inr (lo (split_lo_hi v))
           | PCREL_HI \<Rightarrow> Inr (ucast (drop_bit 12 ((ucast v :: size_t) - position ev)))
           | PCREL_LO \<Rightarrow> Inr (ucast (((ucast v :: size_t) - position ev) AND 0xFFF))))"
| "evaluate ev (TreeImmediate tree) = evaluate_tree ev tree"
| "evaluate_tree ev tree =
     (case evaluate_tree_loop ev tree ADD 0 of
        Inl e \<Rightarrow> Inl e
      | Inr (last_op, result) \<Rightarrow> if last_op = END then Inr result else Inl RuntimeAssert)"
| "evaluate_tree_loop ev [] last_op result = Inr (last_op, result)"
| "evaluate_tree_loop ev ((sub, op) # rest) last_op result =
     (case evaluate ev sub of
        Inl e \<Rightarrow> Inl e
      | Inr v \<Rightarrow>
          (case last_op of
             ADD \<Rightarrow> evaluate_tree_loop ev rest op (result + v)
           | SUB \<Rightarrow> evaluate_tree_loop ev rest op (result - v)
           | END \<Rightarrow> Inl RuntimeAssert))"

section \<open>Assembler: line helpers (include/assembly/helper.h)\<close>

text \<open>
  \<open>std::string_view\<close> is a \<open>string\<close>; \<open>std::isspace\<close> and \<open>std::isalnum\<close> are taken in
  the "C" locale. A \<open>FailToParse\<close> carries its message; \<open>throw_if <FailToParse> (cond)\<close>
  without a message is modelled with the empty message.
\<close>

datatype parse_error = FailToParse string

definition isspace :: "char \<Rightarrow> bool" where
  "isspace c \<longleftrightarrow> c = CHR '' '' \<or> (9 \<le> (of_char c :: nat) \<and> (of_char c :: nat) \<le> 13)"

definition isalnum :: "char \<Rightarrow> bool" where
  "isalnum c \<longleftrightarrow>
     (let n = (of_char c :: nat)
      in (48 \<le> n \<and> n \<le> 57) \<or> (65 \<le> n \<and> n \<le> 90) \<or> (97 \<le> n \<and> n \<le> 122))"

definition is_label_char :: "char \<Rightarrow> bool" where
  "is_label_char c \<longleftrightarrow> isalnum c \<or> c = CHR ''_'' \<or> c = CHR ''.'' \<or> c = CHR ''@''"

definition remove_front_whitespace :: "string \<Rightarrow> string" where
  "remove_front_whitespace str = dropWhile isspace str"

definition remove_back_whitespace :: "string \<Rightarrow> string" where
  "remove_back_whitespace str = rev (dropWhile isspace (rev str))"

definition contain_no_token :: "string \<Rightarrow> bool" where
  "contain_no_token str =
     (let tmp = remove_front_whitespace str
      in case tmp of [] \<Rightarrow> True | c # _ \<Rightarrow> c = CHR ''#'')"

definition is_valid_label :: "string \<Rightarrow> bool" where
  "is_valid_label str = list_all is_label_char str"

text \<open>\<open>str.find_first_of(c)\<close>: the index of the first \<open>c\<close>, \<open>None\<close> for \<open>npos\<close>.\<close>

definition find_first_of :: "char \<Rightarrow> string \<Rightarrow> nat option" where
  "find_first_of c str =
     (if c \<in> set str then Some (length (takeWhile (\<lambda>x. x \<noteq> c) str)) else None)"

definition start_with_label :: "string \<Rightarrow> parse_error + string option" where
  "start_with_label str =
     (let pos1 = find_first_of (CHR 0x22) str;
          pos2 = find_first_of (CHR '':'') str
      in case pos2 of
           None \<Rightarrow> Inr None
         | Some p2 \<Rightarrow>
             if (case pos1 of None \<Rightarrow> True | Some p1 \<Rightarrow> p2 < p1) then
               (let label = take p2 str;
                    rest = drop (p2 + 1) str
                in if \<not> is_valid_label label then
                     Inl (FailToParse (''Invalid label: '' @ [CHR 0x22] @ label @ [CHR 0x22]))
                   else if \<not> contain_no_token rest then
                     Inl (FailToParse ''Unexpected token after label'')
                   else Inr (Some label))
             else Inr None)"

definition remove_comments_when_no_string :: "string \<Rightarrow> parse_error + string" where
  "remove_comments_when_no_string str =
     (if CHR 0x22 \<in> set str then Inl (FailToParse [])
      else Inr (case find_first_of (CHR ''#'') str of
                  None \<Rightarrow> take (length str) str
                | Some pos \<Rightarrow> take pos str))"

text \<open>
  The \<open>while\<close> loop of \<open>split_command\<close> for \<open>_N \<ge> 2\<close>. \<open>ret\<close> is the \<open>std::array\<close> of
  \<open>_N\<close> views, \<open>i\<close> the next index to fill; \<open>pos\<close> is recomputed from \<open>str\<close> at the head
  of every iteration.
\<close>

function split_loop :: "nat \<Rightarrow> char \<Rightarrow> string \<Rightarrow> nat \<Rightarrow> string list
    \<Rightarrow> parse_error + string list" where
  "split_loop N indent str i ret =
     (case find_first_of indent str of
        None \<Rightarrow> Inl (FailToParse ''Too few arguments'')
      | Some pos \<Rightarrow>
          (let ret1 = ret[i := remove_back_whitespace (take pos str)];
               i1 = i + 1;
               str1 = remove_front_whitespace (drop (pos + 1) str)
           in if i1 = N - 1 then Inr (ret1[i1 := remove_back_whitespace str1])
              else split_loop N indent str1 i1 ret1))"
  by pat_completeness auto
termination
proof (relation "measure (\<lambda>(N, indent, str, i, ret). length str)")
  show "wf (measure (\<lambda>(N, indent, str, i, ret). length str))" by simp
next
  fix N :: nat and indent :: char and str :: string and i :: nat and ret :: "string list"
    and pos ret1 i1 str1
  assume found: "find_first_of indent str = Some pos"
    and str1: "str1 = remove_front_whitespace (drop (pos + 1) str)"
  from found have "indent \<in> set str"
    by (simp add: find_first_of_def split: if_splits)
  then have "str \<noteq> []" by auto
  have "length str1 \<le> length (drop (pos + 1) str)"
    unfolding str1 remove_front_whitespace_def by (rule length_dropWhile_le)
  also have "\<dots> < length str"
    using \<open>str \<noteq> []\<close> by simp
  finally show "((N, indent, str1, i1, ret1), (N, indent, str, i, ret))
      \<in> measure (\<lambda>(N, indent, str, i, ret). length str)"
    by simp
qed

text \<open>
  \<open>split_command <_N, _Indent>\<close>. For \<open>_N = 0\<close> the source returns nothing; the model
  returns the empty list.
\<close>

definition split_command :: "nat \<Rightarrow> char \<Rightarrow> string \<Rightarrow> parse_error + string list" where
  "split_command N indent str =
     (if N = 0 then
        (if \<not> contain_no_token str then Inl (FailToParse []) else Inr [])
      else
        (case remove_comments_when_no_string str of
           Inl e \<Rightarrow> Inl e
         | Inr s \<Rightarrow>
             (let str0 = remove_front_whitespace s
              in if N = 1 then Inr ((replicate N [])[0 := remove_back_whitespace str0])
                 else split_loop N indent str0 0 (replicate N []))))"

section \<open>Interpreter: post-link checks (src/interpreter/interpreter.cpp)\<close>

text \<open>
  A linked section: its base address and its byte storage. \<open>section.start +
  section.storage.size()\<close> is an addition of \<open>std::size_t\<close>.
\<close>

record Section =
  start :: size_t
  storage :: "8 word list"

record link_result =
  text_section :: Section
  data_section :: Section
  rodata_section :: Section
  bss_section :: Section
  position_table :: "string \<rightharpoonup> target_size_t"

definition get_start_end :: "Section \<Rightarrow> size_t \<times> size_t" where
  "get_start_end sec = (start sec, start sec + of_nat (length (storage sec)))"

definition check_no_overlap :: "link_result \<Rightarrow> link_error + unit" where
  "check_no_overlap result =
     (let (text_start, text_end) = get_start_end (text_section result);
          (data_start, data_end) = get_start_end (data_section result);
          (rodata_start, rodata_end) = get_start_end (rodata_section result);
          (bss_start, bss_end) = get_start_end (bss_section result)
      in if text_end \<le> data_start \<and> data_end \<le> rodata_start \<and> rodata_end \<le> bss_start
         then Inr () else Inl RuntimeAssert)"

text \<open>The checks of the \<open>Interpreter\<close> constructor on the linker's result.\<close>

definition Interpreter_checks :: "link_result \<Rightarrow> link_error + unit" where
  "Interpreter_checks result =
     (if position_table result ''main'' = None then Inl (Panic ''No main function found'')
      else check_no_overlap result)"

section \<open>Interpreter: the top-level loop (src/interpreter/backend.cpp)\<close>

datatype Error =
    LoadMisAligned | LoadOutOfBound
  | StoreMisAligned | StoreOutOfBound
  | InsMisAligned | InsOutOfBound | InsUnknown
  | LibcMisAligned | LibcOutOfBound | LibcError
  | DivideByZero
  | NotImplemented

record fail_to_interpret =
  error :: Error
  address :: target_size_t
  detail :: "32 word"

text \<open>
  What can be in flight at a \<open>catch\<close>. Modelled from the spec: \<open>panic\<close> and \<open>panic_if\<close>
  (utility/error.h) are not among the sources; by the spec a panic prints its formatted
  message and raises the panic sentinel \<open>PanicError\<close>, which only the outer driver catches.
\<close>

datatype thrown =
    PanicError string
  | FailToInterpret fail_to_interpret
  | StdException string
  | OtherException

text \<open>
  How a call ends: it returns, an exception leaves it, or it called the \<open>[[noreturn]]\<close>
  \<open>unreachable(msg)\<close>.
\<close>

datatype 'a outcome = Returned 'a | Raised thrown | Unreachable string

text \<open>
  The register file, memory, device and instruction cache are not among the sources. The
  loop sees them through three operations on their joint state \<open>'s\<close>: \<open>rf.advance()\<close>;
  the fetch and execution of one instruction, which leaves a new state and possibly an
  exception; and \<open>e.what(rf, mem, dev)\<close>.
\<close>

record 's machine =
  advance :: "'s \<Rightarrow> bool \<times> 's"
  fetch_execute :: "'s \<Rightarrow> 's \<times> thrown option"
  what :: "fail_to_interpret \<Rightarrow> 's \<Rightarrow> string"

text \<open>
  \<open>while (rf.advance() && timeout --> 0)\<close>: \<open>advance\<close> is called first; only if it
  returns true is \<open>timeout\<close> compared with 0 and then decremented, wrapping at 0. The loop
  reports why it was left and how many instructions were retired.
\<close>

datatype loop_exit = AdvanceFalse | TimeoutZero | Threw thrown

record 's loop_result =
  final_state :: 's
  final_timeout :: size_t
  retired :: nat
  left_by :: loop_exit

function simulate_loop :: "'s machine \<Rightarrow> 's \<Rightarrow> size_t \<Rightarrow> nat \<Rightarrow> 's loop_result" where
  "simulate_loop m s timeout n =
     (let (continue, s1) = advance m s
      in if \<not> continue then
           \<lparr>final_state = s1, final_timeout = timeout, retired = n, left_by = AdvanceFalse\<rparr>
         else if \<not> 0 < timeout then
           \<lparr>final_state = s1, final_timeout = timeout - 1, retired = n, left_by = TimeoutZero\<rparr>
         else
           (let (s2, t) = fetch_execute m s1
            in case t of
                 Some e \<Rightarrow>
                   \<lparr>final_state = s2, final_timeout = timeout - 1, retired = n,
                    left_by = Threw e\<rparr>
               | None \<Rightarrow> simulate_loop m s2 (timeout - 1) (n + 1)))"
  by pat_completeness auto
termination
proof (relation "measure (\<lambda>(m, s, timeout, n). unat timeout)")
  show "wf (measure (\<lambda>(m, s, timeout, n). unat timeout))" by simp
next
  fix m :: "'s machine" and s :: 's and timeout :: size_t and n :: nat
    and x continue s1 y s2 t
  assume "\<not> \<not> 0 < timeout"
  then have "timeout \<noteq> 0" by (simp add: word_neq_0_conv)
  then have "unat (timeout - 1) < unat timeout"
    by (simp add: unat_minus_one unat_gt_0)
  then show "((m, s2, timeout - 1, n + 1), (m, s, timeout, n))
      \<in> measure (\<lambda>(m, s, timeout, n). unat timeout)"
    by simp
qed

definition simulate_normal :: "'s machine \<Rightarrow> 's \<Rightarrow> size_t \<Rightarrow> 's outcome" where
  "simulate_normal m s timeout =
     (let r = simulate_loop m s timeout 0
      in case left_by r of
           Threw (FailToInterpret e) \<Rightarrow> Raised (PanicError (what m e (final_state r)))
         | Threw (StdException w) \<Rightarrow>
             Unreachable (''std::exception caught: '' @ w @ [CHR 0x0A])
         | Threw e \<Rightarrow> Raised e
         | _ \<Rightarrow>
             if final_timeout r + 1 = 0 then Raised (PanicError ''Time Limit Exceeded'')
             else Returned (final_state r))"

section \<open>The driver (src/main.cpp)\<close>

text \<open>
  \<open>main\<close> either returns its exit code or ends inside \<open>unreachable(msg)\<close>. The \<open>try\<close>
  block runs the build (configuration, assembly, linking) and then the simulation; the
  first of them that does not return ends the block.
\<close>

datatype exit = Exit int | NoReturn string

definition try_block :: "unit outcome \<Rightarrow> 'a outcome \<Rightarrow> unit outcome" where
  "try_block build simulation =
     (case build of
        Returned _ \<Rightarrow>
          (case simulation of
             Returned _ \<Rightarrow> Returned ()
           | Raised e \<Rightarrow> Raised e
           | Unreachable msg \<Rightarrow> Unreachable msg)
      | other \<Rightarrow> other)"

definition main :: "unit outcome \<Rightarrow> 'a outcome \<Rightarrow> exit" where
  "main build simulation =
     (case try_block build simulation of
        Returned _ \<Rightarrow> Exit 0
      | Raised (PanicError msg) \<Rightarrow> Exit 0
      | Raised (StdException w) \<Rightarrow> NoReturn (''std::exception caught: '' @ w @ [CHR 0x0A])
      | Raised _ \<Rightarrow> NoReturn (''unexpected exception caught'' @ [CHR 0x0A])
      | Unreachable msg \<Rightarrow> NoReturn msg)"

section \<open>The disassembler (src/interpreter/command.cpp)\<close>

type_synonym command_size_t = "32 word"

text \<open>
  \<open>std::format("{:#x}", n)\<close> prints \<open>0x\<close> and the lower-case hexadecimal digits of
  \<open>n\<close> without leading zeros; \<open>std::format("{}", i)\<close> prints a signed decimal.
\<close>

definition hex_digit :: "nat \<Rightarrow> char" where
  "hex_digit d = ''0123456789abcdef'' ! d"

definition dec_digit :: "nat \<Rightarrow> char" where
  "dec_digit d = ''0123456789'' ! d"

fun hex_digits :: "nat \<Rightarrow> string" where
  "hex_digits n = (if n < 16 then [hex_digit n] else hex_digits (n div 16) @ [hex_digit (n mod 16)])"

fun dec_digits :: "nat \<Rightarrow> string" where
  "dec_digits n = (if n < 10 then [dec_digit n] else dec_digits (n div 10) @ [dec_digit (n mod 10)])"

definition format_dec :: "int \<Rightarrow> string" where
  "format_dec i = (if i < 0 then CHR ''-'' # dec_digits (nat (- i)) else dec_digits (nat i))"

definition format_alt_hex :: "nat \<Rightarrow> string" where
  "format_alt_hex n = ''0x'' @ hex_digits n"

definition default_format :: "command_size_t \<Rightarrow> string" where
  "default_format cmd = ''0x'' @ format_alt_hex (unat cmd)"

text \<open>
  Modelled from the spec: the header riscv/command.h (the opcodes, the \<open>Funct3\<close> and
  \<open>Funct7\<close> constants and the bit fields of each instruction format) is not among the
  sources; the spec fixes them as the RV32I encoding. The register names
  (\<open>reg_to_sv (int_to_reg r)\<close>) and the immediate of each format (\<open>get_imm\<close>) are left as
  parameters.
\<close>

datatype format = R_type | I_type | S_type | L_type | B_type | Jal | Jalr | Lui | Auipc

record riscv =
  reg_to_sv :: "command_size_t \<Rightarrow> string"
  get_imm :: "format \<Rightarrow> command_size_t \<Rightarrow> int"

definition opcode :: "format \<Rightarrow> command_size_t" where
  "opcode f =
     (case f of
        R_type \<Rightarrow> 0x33 | I_type \<Rightarrow> 0x13 | S_type \<Rightarrow> 0x23 | L_type \<Rightarrow> 0x03 | B_type \<Rightarrow> 0x63
      | Jal \<Rightarrow> 0x6F | Jalr \<Rightarrow> 0x67 | Lui \<Rightarrow> 0x37 | Auipc \<Rightarrow> 0x17)"

definition get_opcode :: "command_size_t \<Rightarrow> command_size_t" where
  "get_opcode cmd = cmd AND 0x7F"

definition get_rd :: "command_size_t \<Rightarrow> command_size_t" where
  "get_rd cmd = drop_bit 7 cmd AND 0x1F"

definition get_funct3 :: "command_size_t \<Rightarrow> command_size_t" where
  "get_funct3 cmd = drop_bit 12 cmd AND 0x7"

definition get_rs1 :: "command_size_t \<Rightarrow> command_size_t" where
  "get_rs1 cmd = drop_bit 15 cmd AND 0x1F"

definition get_rs2 :: "command_size_t \<Rightarrow> command_size_t" where
  "get_rs2 cmd = drop_bit 20 cmd AND 0x1F"

definition get_funct7 :: "command_size_t \<Rightarrow> command_size_t" where
  "get_funct7 cmd = drop_bit 25 cmd AND 0x7F"

definition join :: "command_size_t \<Rightarrow> command_size_t \<Rightarrow> command_size_t" where
  "join a b = push_bit 3 a OR b"

text \<open>
  Each \<open>switch\<close> of \<open>match_and_return\<close> cases is a table from the case label to the
  mnemonic, in the order of the source; its \<open>default\<close> is the failed lookup.
\<close>

definition r_type_table :: "(command_size_t \<times> string) list" where
  "r_type_table =
     [(join 0x00 0x0, ''add''), (join 0x20 0x0, ''sub''), (join 0x00 0x1, ''sll''),
      (join 0x00 0x2, ''slt''), (join 0x00 0x3, ''sltu''), (join 0x00 0x4, ''xor''),
      (join 0x00 0x5, ''srl''), (join 0x20 0x5, ''sra''), (join 0x00 0x6, ''or''),
      (join 0x00 0x7, ''and'')]"

definition i_type_table :: "(command_size_t \<times> string) list" where
  "i_type_table =
     [(0x0, ''addi''), (0x2, ''slti''), (0x3, ''sltiu''), (0x4, ''xori''), (0x6, ''ori''),
      (0x7, ''andi'')]"

definition s_type_table :: "(command_size_t \<times> string) list" where
  "s_type_table = [(0x2, ''sw''), (0x1, ''sh''), (0x0, ''sb'')]"

definition l_type_table :: "(command_size_t \<times> string) list" where
  "l_type_table = [(0x0, ''lb''), (0x1, ''lh''), (0x2, ''lw''), (0x4, ''lbu''), (0x5, ''lhu'')]"

definition b_type_table :: "(command_size_t \<times> string) list" where
  "b_type_table =
     [(0x0, ''beq''), (0x1, ''bne''), (0x4, ''blt''), (0x5, ''bge''), (0x6, ''bltu''),
      (0x7, ''bgeu'')]"

definition match_and_return :: "(command_size_t \<times> string) list \<Rightarrow> command_size_t
    \<Rightarrow> string \<Rightarrow> command_size_t \<Rightarrow> string" where
  "match_and_return table key suffix cmd =
     (case map_of table key of
        Some name \<Rightarrow> name @ '' '' @ suffix
      | None \<Rightarrow> default_format cmd)"

definition suffix3 :: "string \<Rightarrow> string \<Rightarrow> string \<Rightarrow> string" where
  "suffix3 a b c = a @ '', '' @ b @ '', '' @ c"

definition suffix2 :: "string \<Rightarrow> string \<Rightarrow> string" where
  "suffix2 a b = a @ '', '' @ b"

definition pretty_r_type :: "riscv \<Rightarrow> command_size_t \<Rightarrow> string" where
  "pretty_r_type h cmd =
     (let suffix = suffix3 (reg_to_sv h (get_rd cmd)) (reg_to_sv h (get_rs1 cmd))
            (reg_to_sv h (get_rs2 cmd))
      in match_and_return r_type_table (join (get_funct7 cmd) (get_funct3 cmd)) suffix cmd)"

definition pretty_i_type :: "riscv \<Rightarrow> command_size_t \<Rightarrow> string" where
  "pretty_i_type h cmd =
     (let rd = reg_to_sv h (get_rd cmd);
          rs1 = reg_to_sv h (get_rs1 cmd);
          imm = get_imm h I_type cmd;
          suffix = suffix3 rd rs1 (format_dec imm)
      in if get_funct3 cmd = 0x1 then
           (if get_funct7 cmd = 0x00 then ''slli '' @ suffix else default_format cmd)
         else if get_funct3 cmd = 0x5 then
           (if get_funct7 cmd = 0x00 then ''srli '' @ suffix
            else if get_funct7 cmd = 0x20 then
              ''srai '' @ suffix3 rd rs1 (format_dec (imm AND 31))
            else default_format cmd)
         else match_and_return i_type_table (get_funct3 cmd) suffix cmd)"

definition pretty_s_type :: "riscv \<Rightarrow> command_size_t \<Rightarrow> string" where
  "pretty_s_type h cmd =
     (let suffix = suffix3 (reg_to_sv h (get_rs1 cmd)) (reg_to_sv h (get_rs2 cmd))
            (format_dec (get_imm h S_type cmd))
      in match_and_return s_type_table (get_funct3 cmd) suffix cmd)"

definition pretty_l_type :: "riscv \<Rightarrow> command_size_t \<Rightarrow> string" where
  "pretty_l_type h cmd =
     (let suffix = suffix3 (reg_to_sv h (get_rd cmd)) (reg_to_sv h (get_rs1 cmd))
            (format_dec (get_imm h L_type cmd))
      in match_and_return l_type_table (get_funct3 cmd) suffix cmd)"

definition pretty_b_type :: "riscv \<Rightarrow> command_size_t \<Rightarrow> string" where
  "pretty_b_type h cmd =
     (let suffix = suffix3 (reg_to_sv h (get_rs1 cmd)) (reg_to_sv h (get_rs2 cmd))
            (format_dec (get_imm h B_type cmd))
      in match_and_return b_type_table (get_funct3 cmd) suffix cmd)"

definition pretty_jal :: "riscv \<Rightarrow> command_size_t \<Rightarrow> string" where
  "pretty_jal h cmd =
     ''jal '' @ suffix2 (reg_to_sv h (get_rd cmd)) (format_dec (get_imm h Jal cmd))"

definition pretty_jalr :: "riscv \<Rightarrow> command_size_t \<Rightarrow> string" where
  "pretty_jalr h cmd =
     ''jalr '' @ suffix3 (reg_to_sv h (get_rd cmd)) (reg_to_sv h (get_rs1 cmd))
        (format_dec (get_imm h Jalr cmd))"

definition pretty_lui :: "riscv \<Rightarrow> command_size_t \<Rightarrow> string" where
  "pretty_lui h cmd =
     ''lui '' @ suffix2 (reg_to_sv h (get_rd cmd)) (format_dec (get_imm h Lui cmd))"

definition pretty_auipc :: "riscv \<Rightarrow> command_size_t \<Rightarrow> string" where
  "pretty_auipc h cmd =
     ''auipc '' @ suffix2 (reg_to_sv h (get_rd cmd)) (format_dec (get_imm h Auipc cmd))"

definition pretty_command :: "riscv \<Rightarrow> command_size_t \<Rightarrow> string" where
  "pretty_command h cmd =
     (let op = get_opcode cmd
      in if op = opcode R_type then pretty_r_type h cmd
         else if op = opcode I_type then pretty_i_type h cmd
         else if op = opcode S_type then pretty_s_type h cmd
         else if op = opcode L_type then pretty_l_type h cmd
         else if op = opcode B_type then pretty_b_type h cmd
         else if op = opcode Jal then pretty_jal h cmd
         else if op = opcode Jalr then pretty_jalr h cmd
         else if op = opcode Lui then pretty_lui h cmd
         else if op = opcode Auipc then pretty_auipc h cmd
         else default_format cmd)"

section \<open>Reference definitions for the evaluator's properties\<close>

text \<open>
  The fold of a \<open>Tree\<close> in the spec's words: the result starts at 0 and every element
  contributes plus or minus its value according to the operator before it (\<open>prev\<close>, the
  implicit leading \<open>ADD\<close> for the first element).
\<close>

fun signed_sum :: "tree_operator \<Rightarrow> (target_size_t \<times> tree_operator) list \<Rightarrow> target_size_t" where
  "signed_sum prev [] = 0"
| "signed_sum prev ((v, op) # rest) = (if prev = SUB then - v else v) + signed_sum op rest"

text \<open>The list ends with \<open>END\<close>, and \<open>END\<close> stands nowhere before the last element.\<close>

definition tree_terminated :: "(immediate \<times> tree_operator) list \<Rightarrow> bool" where
  "tree_terminated tree \<longleftrightarrow>
     tree \<noteq> [] \<and> snd (last tree) = END \<and> END \<notin> snd ` set (butlast tree)"

text \<open>What the loop checks and keeps: no element follows an \<open>END\<close>; the last operator seen.\<close>

fun ops_ok :: "tree_operator \<Rightarrow> (immediate \<times> tree_operator) list \<Rightarrow> bool" where
  "ops_ok prev [] = True"
| "ops_ok prev ((sub, op) # rest) = (prev \<noteq> END \<and> ops_ok op rest)"

fun final_op :: "tree_operator \<Rightarrow> (immediate \<times> tree_operator) list \<Rightarrow> tree_operator" where
  "final_op prev [] = prev"
| "final_op prev ((sub, op) # rest) = final_op op rest"

text \<open>
  The PC-relative halves in the spec's words: \<open>(v - position + 0x800) >> 12\<close>, and the
  sign-extended low 12 bits of \<open>v - position\<close>.
\<close>

definition pcrel_hi_biased :: "size_t \<Rightarrow> target_size_t \<Rightarrow> target_size_t" where
  "pcrel_hi_biased pos v = ucast (drop_bit 12 ((ucast v :: size_t) - pos + 0x800))"

definition pcrel_lo_signed :: "size_t \<Rightarrow> target_size_t \<Rightarrow> target_size_t" where
  "pcrel_lo_signed pos v = signed_take_bit 11 (ucast ((ucast v :: size_t) - pos))"

text \<open>
  An evaluator for the examples: \<open>a\<close> is defined in the file and globally, \<open>b\<close> only
  globally.
\<close>

definition ev_at :: "size_t \<Rightarrow> evaluator" where
  "ev_at pos = \<lparr>global_table = [''a'' \<mapsto> 100, ''b'' \<mapsto> 7],
     local_table = [''a'' \<mapsto> 5], position = pos\<rparr>"

definition value_at :: "evaluator \<Rightarrow> immediate \<Rightarrow> target_size_t" where
  "value_at ev imm = (case evaluate ev imm of Inr v \<Rightarrow> v | Inl _ \<Rightarrow> 0)"

section \<open>Reference definitions for the post-link checks\<close>

text \<open>
  The end of a section is \<open>start + storage.size()\<close>; the canonical order is text, data,
  rodata, bss. \<open>addresses\<close> are the addresses a section occupies, and a section \<open>fits\<close>
  when its end does not wrap around \<open>std::size_t\<close>.
\<close>

definition section_end :: "Section \<Rightarrow> size_t" where
  "section_end sec = start sec + of_nat (length (storage sec))"

definition adjacent_pairs :: "link_result \<Rightarrow> (Section \<times> Section) list" where
  "adjacent_pairs r =
     [(text_section r, data_section r), (data_section r, rodata_section r),
      (rodata_section r, bss_section r)]"

definition adjacent_ordered :: "link_result \<Rightarrow> bool" where
  "adjacent_ordered r = list_all (\<lambda>(a, b). section_end a \<le> start b) (adjacent_pairs r)"

definition addresses :: "Section \<Rightarrow> nat set" where
  "addresses sec = {unat (start sec) ..< unat (start sec) + length (storage sec)}"

definition fits :: "Section \<Rightarrow> bool" where
  "fits sec \<longleftrightarrow> unat (start sec) + length (storage sec) < 2 ^ 64"

definition demo_link :: link_result where
  "demo_link =
     \<lparr>text_section = \<lparr>start = 0x10000, storage = replicate 8 0\<rparr>,
      data_section = \<lparr>start = 0x10008, storage = replicate 4 1\<rparr>,
      rodata_section = \<lparr>start = 0x1000C, storage = []\<rparr>,
      bss_section = \<lparr>start = 0x1000C, storage = []\<rparr>,
      position_table = [''main'' \<mapsto> 0x10000]\<rparr>"

definition demo_overlap :: link_result where
  "demo_overlap = demo_link\<lparr>data_section := \<lparr>start = 0x10004, storage = replicate 4 1\<rparr>\<rparr>"

section \<open>Reference definitions for the line helpers\<close>

text \<open>
  A token with its surrounding whitespace stripped; the text before the comment; and the
  pieces of a string at its first \<open>k\<close> separators, the last piece being all that follows
  the \<open>k\<close>-th separator.
\<close>

definition strip :: "string \<Rightarrow> string" where
  "strip s = remove_back_whitespace (remove_front_whitespace s)"

definition stripped :: "string \<Rightarrow> bool" where
  "stripped t \<longleftrightarrow> (case t of [] \<Rightarrow> True | c # _ \<Rightarrow> \<not> isspace c \<and> \<not> isspace (last t))"

definition decomment :: "string \<Rightarrow> string" where
  "decomment str = takeWhile (\<lambda>x. x \<noteq> CHR ''#'') str"

fun pieces :: "nat \<Rightarrow> char \<Rightarrow> string \<Rightarrow> string list" where
  "pieces 0 c s = [s]"
| "pieces (Suc k) c s = takeWhile (\<lambda>x. x \<noteq> c) s # pieces k c (tl (dropWhile (\<lambda>x. x \<noteq> c) s))"

section \<open>Reference definitions for the interpreter's properties\<close>

text \<open>
  Three guests: one whose first \<open>advance()\<close> already returns false, one that never stops
  (\<open>j .\<close>), and one whose first instruction traps.
\<close>

definition halted_machine :: "unit machine" where
  "halted_machine = \<lparr>advance = (\<lambda>s. (False, s)), fetch_execute = (\<lambda>s. (s, None)), what = (\<lambda>e s. [])\<rparr>"

definition spinning_machine :: "unit machine" where
  "spinning_machine = \<lparr>advance = (\<lambda>s. (True, s)), fetch_execute = (\<lambda>s. (s, None)), what = (\<lambda>e s. [])\<rparr>"

definition trapping_machine :: "unit machine" where
  "trapping_machine =
     \<lparr>advance = (\<lambda>s. (True, s)),
      fetch_execute = (\<lambda>s. (s, Some (FailToInterpret \<lparr>error = InsUnknown, address = 0, detail = 0\<rparr>))),
      what = (\<lambda>e s. ''Unknown instruction'')\<rparr>"

text \<open>
  A word is canonical when the disassembler's tables have an entry for its opcode and
  function fields. \<open>claimed_format\<close> is the rendering \<open>0x\<close> immediately followed by the
  hexadecimal digits of the word.
\<close>

definition canonical :: "command_size_t \<Rightarrow> bool" where
  "canonical cmd \<longleftrightarrow>
     (let op = get_opcode cmd; f3 = get_funct3 cmd; f7 = get_funct7 cmd
      in (op = opcode R_type \<and> join f7 f3 \<in> fst ` set r_type_table) \<or>
         (op = opcode I_type \<and>
            (f3 \<in> fst ` set i_type_table \<or> (f3 = 0x1 \<and> f7 = 0x00) \<or>
             (f3 = 0x5 \<and> (f7 = 0x00 \<or> f7 = 0x20)))) \<or>
         (op = opcode S_type \<and> f3 \<in> fst ` set s_type_table) \<or>
         (op = opcode L_type \<and> f3 \<in> fst ` set l_type_table) \<or>
         (op = opcode B_type \<and> f3 \<in> fst ` set b_type_table) \<or>
         op = opcode Jal \<or> op = opcode Jalr \<or> op = opcode Lui \<or> op = opcode Auipc)"

definition claimed_format :: "command_size_t \<Rightarrow> string" where
  "claimed_format cmd = ''0x'' @ hex_digits (unat cmd)"

text \<open>A header for the examples: registers are named \<open>x0\<close> to \<open>x31\<close>, every immediate is -5.\<close>

definition demo_riscv :: riscv where
  "demo_riscv = \<lparr>reg_to_sv = (\<lambda>r. CHR ''x'' # dec_digits (unat r)), get_imm = (\<lambda>f cmd. - 5)\<rparr>"

section \<open>Properties of the evaluator\<close>

subsection \<open>Symbols\<close>

text \<open>
  C7: a symbol found in the current file's local table evaluates to its local location,
  whatever the global table holds; a symbol absent from the local table evaluates to its
  global location; a symbol in neither table aborts the link with the panic
  \<open>Unknown symbol "s"\<close>.
\<close>

theorem sym_local_then_global:
  "(local_table ev s = Some l \<longrightarrow> evaluate ev (StrImmediate s) = Inr l) \<and>
   (local_table ev s = None \<and> global_table ev s = Some g \<longrightarrow>
      evaluate ev (StrImmediate s) = Inr g) \<and>
   (local_table ev s = None \<and> global_table ev s = None \<longrightarrow>
      evaluate ev (StrImmediate s) = Inl (Panic (unknown_symbol s)))"
  by (simp add: get_symbol_position_def)

theorem sym_local_then_global_witness:
  "local_table (ev_at 0) ''a'' = Some 5 \<and> global_table (ev_at 0) ''a'' = Some 100 \<and>
   evaluate (ev_at 0) (StrImmediate ''a'') = Inr 5 \<and>
   local_table (ev_at 0) ''b'' = None \<and> global_table (ev_at 0) ''b'' = Some 7 \<and>
   evaluate (ev_at 0) (StrImmediate ''b'') = Inr 7 \<and>
   local_table (ev_at 0) ''c'' = None \<and> global_table (ev_at 0) ''c'' = None \<and>
   evaluate (ev_at 0) (StrImmediate ''c'') = Inl (Panic (unknown_symbol ''c''))"
proof -
  have a: "local_table (ev_at 0) ''a'' = Some 5" "global_table (ev_at 0) ''a'' = Some 100"
    by (simp_all add: ev_at_def)
  have b: "local_table (ev_at 0) ''b'' = None" "global_table (ev_at 0) ''b'' = Some 7"
    by (simp_all add: ev_at_def)
  have c: "local_table (ev_at 0) ''c'' = None" "global_table (ev_at 0) ''c'' = None"
    by (simp_all add: ev_at_def)
  from sym_local_then_global [of "ev_at 0" "''a''" 5] a
  have ra: "evaluate (ev_at 0) (StrImmediate ''a'') = Inr 5" by blast
  from sym_local_then_global [of "ev_at 0" "''b''" _ 7] b
  have rb: "evaluate (ev_at 0) (StrImmediate ''b'') = Inr 7" by blast
  from sym_local_then_global [of "ev_at 0" "''c''"] c
  have rc: "evaluate (ev_at 0) (StrImmediate ''c'') = Inl (Panic (unknown_symbol ''c''))" by blast
  from a b c ra rb rc show ?thesis by blast
qed

subsection \<open>Trees\<close>

lemma tree_loop_values:
  "\<forall>(sub, op) \<in> set tree. evaluate ev sub = Inr (val sub) \<Longrightarrow>
   evaluate_tree_loop ev tree prev acc =
     (if ops_ok prev tree
      then Inr (final_op prev tree, acc + signed_sum prev (map (\<lambda>(sub, op). (val sub, op)) tree))
      else Inl RuntimeAssert)"
proof (induction tree arbitrary: prev acc)
  case Nil
  then show ?case by simp
next
  case (Cons a tree)
  obtain sub op where a: "a = (sub, op)" by (cases a)
  from Cons.prems a have v: "evaluate ev sub = Inr (val sub)" by simp
  from Cons.prems have rest: "\<forall>(sub, op) \<in> set tree. evaluate ev sub = Inr (val sub)" by simp
  show ?case
    by (cases prev) (simp_all add: a v Cons.IH [OF rest] algebra_simps)
qed

lemma final_op_last: "tree \<noteq> [] \<Longrightarrow> final_op prev tree = snd (last tree)"
  by (induction prev tree rule: final_op.induct) (auto simp: neq_Nil_conv)

lemma ops_ok_butlast:
  "tree \<noteq> [] \<Longrightarrow> ops_ok prev tree \<longleftrightarrow> prev \<noteq> END \<and> END \<notin> snd ` set (butlast tree)"
proof (induction prev tree rule: ops_ok.induct)
  case (1 prev)
  then show ?case by simp
next
  case (2 prev sub op rest)
  then show ?case by (cases rest) auto
qed

lemma tree_terminated_iff:
  "tree_terminated tree \<longleftrightarrow> ops_ok ADD tree \<and> final_op ADD tree = END"
proof (cases "tree = []")
  case True
  then show ?thesis by (simp add: tree_terminated_def)
next
  case False
  then show ?thesis
    by (simp add: tree_terminated_def final_op_last ops_ok_butlast) blast
qed

lemma tree_loop_final:
  "evaluate_tree_loop ev tree prev acc = Inr (last_op, r) \<Longrightarrow> last_op = final_op prev tree"
proof (induction tree arbitrary: prev acc)
  case Nil
  then show ?case by simp
next
  case (Cons a tree)
  obtain sub op where a: "a = (sub, op)" by (cases a)
  from Cons.prems show ?case
    by (auto simp: a split: sum.splits tree_operator.splits dest: Cons.IH)
qed

text \<open>
  The order of the fold shows in the error: the first element that fails to evaluate
  decides it, also when the operator before it is \<open>END\<close>.
\<close>

lemma tree_loop_first_error:
  assumes "\<forall>(sub, op) \<in> set pre. evaluate ev sub = Inr (val sub)"
    and "ops_ok prev pre" and "evaluate ev sub = Inl e"
  shows "evaluate_tree_loop ev (pre @ (sub, op) # post) prev acc = Inl e"
  using assms(1,2)
proof (induction pre arbitrary: prev acc)
  case Nil
  with assms(3) show ?case by simp
next
  case (Cons a pre)
  obtain s o' where a: "a = (s, o')" by (cases a)
  from Cons.prems a have v: "evaluate ev s = Inr (val s)"
    and rest: "\<forall>(sub, op) \<in> set pre. evaluate ev sub = Inr (val sub)"
    and ok: "prev \<noteq> END" "ops_ok o' pre"
    by simp_all
  from ok(1) show ?case
    by (cases prev) (simp_all add: a v Cons.IH [OF rest ok(2)])
qed

lemma tree_first_error:
  assumes "\<forall>(sub, op) \<in> set pre. evaluate ev sub = Inr (val sub)"
    and "ops_ok ADD pre" and "evaluate ev sub = Inl e"
  shows "evaluate_tree ev (pre @ (sub, op) # post) = Inl e"
  using tree_loop_first_error [OF assms] by simp

text \<open>
  C6: a \<open>Tree\<close> is folded from the left, starting at 0 with an implicit leading \<open>ADD\<close>;
  when every element evaluates, the result is the sum of the elements' values, each
  signed by the operator before it, provided the list ends with \<open>END\<close> (and holds no
  earlier \<open>END\<close>), and the evaluation fails its assertion otherwise. Whatever the
  elements evaluate to, an empty list or a last operator other than \<open>END\<close> makes the
  evaluation fail.
\<close>

theorem tree_fold:
  "((\<forall>(sub, op) \<in> set tree. evaluate ev sub = Inr (val sub)) \<longrightarrow>
      evaluate_tree ev tree =
        (if tree_terminated tree
         then Inr (signed_sum ADD (map (\<lambda>(sub, op). (val sub, op)) tree))
         else Inl RuntimeAssert)) \<and>
   (tree = [] \<or> snd (last tree) \<noteq> END \<longrightarrow> isl (evaluate_tree ev tree))"
proof (intro conjI impI)
  assume "\<forall>(sub, op) \<in> set tree. evaluate ev sub = Inr (val sub)"
  then show "evaluate_tree ev tree =
        (if tree_terminated tree
         then Inr (signed_sum ADD (map (\<lambda>(sub, op). (val sub, op)) tree))
         else Inl RuntimeAssert)"
    by (simp add: tree_loop_values tree_terminated_iff)
next
  assume bad: "tree = [] \<or> snd (last tree) \<noteq> END"
  show "isl (evaluate_tree ev tree)"
  proof (cases "evaluate_tree_loop ev tree ADD 0")
    case (Inl e)
    then show ?thesis by simp
  next
    case (Inr p)
    obtain last_op r where p: "p = (last_op, r)" by (cases p)
    from Inr p have "last_op = final_op ADD tree" by (auto dest: tree_loop_final)
    with bad have "last_op \<noteq> END"
      by (cases "tree = []") (simp_all add: final_op_last)
    with Inr p show ?thesis by simp
  qed
qed

theorem tree_fold_witness:
  "evaluate_tree (ev_at 0)
     [(IntImmediate 5, SUB), (IntImmediate 2, ADD), (StrImmediate ''b'', END)] = Inr 10 \<and>
   evaluate_tree (ev_at 0) [(IntImmediate 5, END), (IntImmediate 2, END)] = Inl RuntimeAssert \<and>
   isl (evaluate_tree (ev_at 0) [(IntImmediate 5, SUB)])"
proof -
  let ?val = "value_at (ev_at 0)"
  let ?t1 = "[(IntImmediate 5, SUB), (IntImmediate 2, ADD), (StrImmediate ''b'', END)]"
  let ?t2 = "[(IntImmediate 5, END), (IntImmediate 2, END)]"
  let ?t3 = "[(IntImmediate 5, SUB)]"
  have h1: "\<forall>(sub, op) \<in> set ?t1. evaluate (ev_at 0) sub = Inr (?val sub)"
    by (simp add: value_at_def ev_at_def get_symbol_position_def)
  have h2: "\<forall>(sub, op) \<in> set ?t2. evaluate (ev_at 0) sub = Inr (?val sub)"
    by (simp add: value_at_def)
  have h3: "?t3 = [] \<or> snd (last ?t3) \<noteq> END"
    by simp
  have t1: "tree_terminated ?t1" and t2: "\<not> tree_terminated ?t2"
    by (simp_all add: tree_terminated_def)
  have v: "signed_sum ADD (map (\<lambda>(sub, op). (?val sub, op)) ?t1) = 10"
    by (simp add: value_at_def ev_at_def get_symbol_position_def)
  from tree_fold [of ?t1 "ev_at 0" ?val] h1 t1 v
  have r1: "evaluate_tree (ev_at 0) ?t1 = Inr 10" by simp
  from tree_fold [of ?t2 "ev_at 0" ?val] h2 t2
  have r2: "evaluate_tree (ev_at 0) ?t2 = Inl RuntimeAssert" by simp
  from tree_fold [of ?t3 "ev_at 0" ?val] h3
  have r3: "isl (evaluate_tree (ev_at 0) ?t3)" by blast
  from r1 r2 r3 show ?thesis by blast
qed

subsection \<open>PC-relative halves\<close>

lemma mod_mult_add_cancel:
  "((a::int) mod m * c + b) mod m = (a * c + b) mod m"
proof -
  have "(a mod m * c + b) mod m = ((a mod m * c) mod m + b) mod m"
    by (simp only: mod_add_left_eq)
  also have "(a mod m * c) mod m = (a * c) mod m"
    by (simp only: mod_mult_left_eq)
  also have "((a * c) mod m + b) mod m = (a * c + b) mod m"
    by (simp only: mod_add_left_eq)
  finally show ?thesis .
qed

lemma uint_diff64:
  "uint ((ucast (v :: target_size_t) :: size_t) - p) = take_bit 64 (uint v - uint p)"
proof -
  have "uint (ucast v :: size_t) = uint v"
    by (simp add: uint_up_ucast is_up)
  then show ?thesis
    by (simp add: uint_word_ariths take_bit_eq_mod)
qed

lemma pcrel_hi_uint:
  "uint (ucast (drop_bit 12 ((ucast v :: size_t) - p)) :: target_size_t) = ((uint v - uint p) div 4096) mod 2 ^ 32"
  for v :: target_size_t and p :: size_t
proof -
  let ?d = "(ucast v :: size_t) - p"
  have "uint (ucast (drop_bit 12 ?d) :: target_size_t) = take_bit 32 (uint (drop_bit 12 ?d))"
    by (simp only: unsigned_ucast_eq) simp
  also have "uint (drop_bit 12 ?d) = drop_bit 12 (uint ?d)"
    by (simp add: drop_bit_eq_div uint_div)
  also have "uint ?d = take_bit 64 (uint v - uint p)"
    by (rule uint_diff64)
  also have "take_bit 32 (drop_bit 12 (take_bit 64 (uint v - uint p)))
      = take_bit 32 (drop_bit 12 (uint v - uint p))"
    by (simp add: drop_bit_take_bit take_bit_take_bit)
  also have "\<dots> = ((uint v - uint p) div 4096) mod 2 ^ 32"
    by (simp add: take_bit_eq_mod drop_bit_eq_div)
  finally show ?thesis .
qed

lemma pcrel_lo_uint:
  "uint (ucast (((ucast v :: size_t) - p) AND 0xFFF) :: target_size_t) = (uint v - uint p) mod 4096"
  for v :: target_size_t and p :: size_t
proof -
  let ?d = "(ucast v :: size_t) - p"
  have m: "?d AND 0xFFF = take_bit 12 ?d"
    using take_bit_eq_mask [of 12 ?d] by (simp add: mask_eq_exp_minus_1)
  have "uint (ucast (take_bit 12 ?d) :: target_size_t) = take_bit 32 (uint (take_bit 12 ?d))"
    by (simp only: unsigned_ucast_eq) simp
  also have "uint (take_bit 12 ?d) = take_bit 12 (uint ?d)"
    by (simp add: unsigned_take_bit_eq)
  also have "take_bit 32 (take_bit 12 (uint ?d)) = take_bit 12 (uint ?d)"
    by (simp add: take_bit_take_bit)
  also have "uint ?d = take_bit 64 (uint v - uint p)"
    by (rule uint_diff64)
  also have "take_bit 12 (take_bit 64 (uint v - uint p)) = take_bit 12 (uint v - uint p)"
    by (simp add: take_bit_take_bit)
  also have "\<dots> = (uint v - uint p) mod 4096"
    by (simp add: take_bit_eq_mod)
  finally show ?thesis
    by (simp only: m)
qed

lemma pcrel_lo_sint:
  "sint (ucast (((ucast v :: size_t) - p) AND 0xFFF) :: target_size_t) = (uint v - uint p) mod 4096"
  for v :: target_size_t and p :: size_t
proof -
  let ?r = "ucast (((ucast v :: size_t) - p) AND 0xFFF) :: target_size_t"
  have u: "uint ?r = (uint v - uint p) mod 4096" by (rule pcrel_lo_uint)
  have "(uint v - uint p) mod 4096 < 4096" and "0 \<le> (uint v - uint p) mod 4096"
    by simp_all
  with u have "uint ?r < 2 ^ 31" and "- (2 ^ 31) \<le> uint ?r" by simp_all
  then have "signed_take_bit 31 (uint ?r) = uint ?r"
    by (rule_tac signed_take_bit_int_eq_self) simp_all
  then have "sint ?r = uint ?r"
    by (simp add: sint_uint)
  with u show ?thesis by simp
qed

lemma pcrel_pair_uint:
  "uint (push_bit 12 (ucast (drop_bit 12 ((ucast v :: size_t) - p)) :: target_size_t) + (ucast (((ucast v :: size_t) - p) AND 0xFFF) :: target_size_t))
     = (uint v - uint p) mod 2 ^ 32"
  for v :: target_size_t and p :: size_t
proof -
  let ?x = "uint v - uint p"
  let ?hi = "ucast (drop_bit 12 ((ucast v :: size_t) - p)) :: target_size_t" and ?lo = "ucast (((ucast v :: size_t) - p) AND 0xFFF) :: target_size_t"
  have "uint (push_bit 12 ?hi + ?lo) = (uint ?hi * 4096 + uint ?lo) mod 2 ^ 32"
    by (simp add: uint_word_ariths push_bit_eq_mult mod_simps)
  also have "\<dots> = (((?x div 4096) mod 2 ^ 32) * 4096 + ?x mod 4096) mod 2 ^ 32"
    by (simp only: pcrel_hi_uint pcrel_lo_uint)
  also have "\<dots> = ((?x div 4096) * 4096 + ?x mod 4096) mod 2 ^ 32"
    by (rule mod_mult_add_cancel)
  also have "(?x div 4096) * 4096 + ?x mod 4096 = ?x"
    by simp
  finally show ?thesis .
qed

lemma pcrel_pair:
  "push_bit 12 (ucast (drop_bit 12 ((ucast v :: size_t) - p)) :: target_size_t) + (ucast (((ucast v :: size_t) - p) AND 0xFFF) :: target_size_t) = v - ucast p"
  for v :: target_size_t and p :: size_t
proof -
  have "uint (v - (ucast p :: 32 word)) = (uint v - uint p) mod 2 ^ 32"
    by (simp add: uint_word_ariths unsigned_ucast_eq take_bit_eq_mod mod_simps)
  then have "uint (push_bit 12 (ucast (drop_bit 12 ((ucast v :: size_t) - p)) :: target_size_t) + (ucast (((ucast v :: size_t) - p) AND 0xFFF) :: target_size_t))
      = uint (v - (ucast p :: 32 word))"
    by (simp only: pcrel_pair_uint)
  then show ?thesis by (simp only: word_uint_eq_iff)
qed

text \<open>
  C2 (amended): for \<open>Rel(PCREL_HI, inner)\<close> at position \<open>p\<close>, with \<open>inner\<close> evaluating to
  \<open>v\<close>, the evaluator returns \<open>(v - p) >> 12\<close> with no \<open>+0x800\<close> bias: the difference
  \<open>v - p\<close> divided by 4096, rounded down, modulo \<open>2^32\<close>. Together with the evaluator's
  \<open>PCREL_LO\<close> half of the same operand the pair gives back the displacement:
  \<open>(hi << 12) + lo = v - p\<close> in 32-bit arithmetic.
\<close>

theorem pcrel_hi_unbiased:
  "evaluate ev inner = Inr v \<Longrightarrow>
   \<exists>h l. evaluate ev (RelImmediate PCREL_HI inner) = Inr h \<and>
     uint h = ((uint v - uint (position ev)) div 4096) mod 2 ^ 32 \<and>
     evaluate ev (RelImmediate PCREL_LO inner) = Inr l \<and>
     push_bit 12 h + l = v - ucast (position ev)"
  by (simp add: pcrel_hi_uint pcrel_pair)

theorem pcrel_hi_unbiased_witness:
  "evaluate (ev_at 0x2008) (IntImmediate 0x1000) = Inr 0x1000 \<and>
   (\<exists>h l. evaluate (ev_at 0x2008) (RelImmediate PCREL_HI (IntImmediate 0x1000)) = Inr h \<and>
     uint h = 0xFFFFFFFE \<and>
     evaluate (ev_at 0x2008) (RelImmediate PCREL_LO (IntImmediate 0x1000)) = Inr l \<and>
     push_bit 12 h + l = 0xFFFFEFF8)"
  using pcrel_hi_unbiased [of "ev_at 0x2008" "IntImmediate 0x1000" "0x1000"]
  by (simp add: ev_at_def)

theorem pcrel_hi_bias_counterexample:
  "evaluate (ev_at 0) (RelImmediate PCREL_HI (IntImmediate 0x800)) = Inr 0 \<and>
   pcrel_hi_biased (position (ev_at 0)) 0x800 = 1 \<and>
   evaluate (ev_at 0) (RelImmediate PCREL_HI (IntImmediate 0x800))
     \<noteq> Inr (pcrel_hi_biased (position (ev_at 0)) 0x800)"
  by (simp add: ev_at_def  pcrel_hi_biased_def)

text \<open>
  C3 (amended): for \<open>Rel(PCREL_LO, inner)\<close> at position \<open>p\<close>, with \<open>inner\<close> evaluating to
  \<open>v\<close>, the evaluator returns the low 12 bits of \<open>v - p\<close> zero-extended: read as a signed
  32-bit value the result is \<open>(v - p) mod 4096\<close>, in \<open>[0, 0xFFF]\<close> and never negative.
\<close>

theorem pcrel_lo_unsigned:
  "evaluate ev inner = Inr v \<Longrightarrow>
   \<exists>l. evaluate ev (RelImmediate PCREL_LO inner) = Inr l \<and>
     sint l = (uint v - uint (position ev)) mod 4096"
  by (simp add: pcrel_lo_sint)

theorem pcrel_lo_unsigned_witness:
  "evaluate (ev_at 0) (IntImmediate 0x800) = Inr 0x800 \<and>
   (\<exists>l. evaluate (ev_at 0) (RelImmediate PCREL_LO (IntImmediate 0x800)) = Inr l \<and>
     sint l = 2048)"
  using pcrel_lo_unsigned [of "ev_at 0" "IntImmediate 0x800" "0x800"]
  by (simp add: ev_at_def)

theorem pcrel_lo_sign_counterexample:
  "evaluate (ev_at 0) (RelImmediate PCREL_LO (IntImmediate 0x800)) = Inr 0x800 \<and>
   pcrel_lo_signed (position (ev_at 0)) 0x800 = 0xFFFFF800 \<and>
   evaluate (ev_at 0) (RelImmediate PCREL_LO (IntImmediate 0x800))
     \<noteq> Inr (pcrel_lo_signed (position (ev_at 0)) 0x800)"
  by (simp add: ev_at_def  pcrel_lo_signed_def)

section \<open>Properties of the post-link checks\<close>

lemma check_no_overlap_iff: "check_no_overlap r = Inr () \<longleftrightarrow> adjacent_ordered r"
  by (simp add: check_no_overlap_def get_start_end_def adjacent_ordered_def adjacent_pairs_def
      section_end_def)

lemma check_no_overlap_fails_iff:
  "check_no_overlap r = Inl RuntimeAssert \<longleftrightarrow> \<not> adjacent_ordered r"
  by (simp add: check_no_overlap_def get_start_end_def adjacent_ordered_def adjacent_pairs_def
      section_end_def)

lemma unat_section_end:
  assumes "fits sec"
  shows "unat (section_end sec) = unat (start sec) + length (storage sec)"
proof -
  from assms have l: "length (storage sec) < 2 ^ 64" by (simp add: fits_def)
  have "unat (of_nat (length (storage sec)) :: size_t) = length (storage sec)"
    using l by (simp add: unat_of_nat)
  with assms show ?thesis
    by (simp add: section_end_def fits_def unat_word_ariths)
qed

lemma overlap_not_ordered:
  assumes "fits a" and "addresses a \<inter> addresses b \<noteq> {}"
  shows "\<not> section_end a \<le> start b"
proof
  assume "section_end a \<le> start b"
  then have "unat (section_end a) \<le> unat (start b)" by (simp add: word_le_nat_alt)
  with assms(1) have "addresses a \<inter> addresses b = {}"
    by (auto simp: addresses_def unat_section_end)
  with assms(2) show False by contradiction
qed

text \<open>
  C9: \<open>check_no_overlap\<close> succeeds exactly when, for each adjacent pair of sections in the
  order text, data, rodata, bss, the end of the earlier one (start + storage size) is at
  most the start of the later one, and fails its assertion otherwise; so after the
  constructor's checks have passed the order holds, and two adjacent sections that share
  an address abort the link.
\<close>

theorem check_no_overlap_adjacent:
  "(check_no_overlap r = Inr () \<longleftrightarrow> adjacent_ordered r) \<and>
   (check_no_overlap r = Inl RuntimeAssert \<longleftrightarrow> \<not> adjacent_ordered r) \<and>
   (Interpreter_checks r = Inr () \<longrightarrow> adjacent_ordered r) \<and>
   ((a, b) \<in> set (adjacent_pairs r) \<and> fits a \<and> addresses a \<inter> addresses b \<noteq> {} \<longrightarrow>
      check_no_overlap r = Inl RuntimeAssert \<and> isl (Interpreter_checks r))"
proof (intro conjI impI)
  show "check_no_overlap r = Inr () \<longleftrightarrow> adjacent_ordered r"
    by (rule check_no_overlap_iff)
  show "check_no_overlap r = Inl RuntimeAssert \<longleftrightarrow> \<not> adjacent_ordered r"
    by (rule check_no_overlap_fails_iff)
next
  assume "Interpreter_checks r = Inr ()"
  then have "check_no_overlap r = Inr ()"
    by (simp add: Interpreter_checks_def split: if_splits)
  then show "adjacent_ordered r" by (simp add: check_no_overlap_iff)
next
  assume h: "(a, b) \<in> set (adjacent_pairs r) \<and> fits a \<and> addresses a \<inter> addresses b \<noteq> {}"
  then have "\<not> section_end a \<le> start b" by (simp add: overlap_not_ordered)
  with h have "\<not> adjacent_ordered r"
    by (auto simp: adjacent_ordered_def list_all_iff)
  then show "check_no_overlap r = Inl RuntimeAssert"
    by (simp add: check_no_overlap_fails_iff)
  then show "isl (Interpreter_checks r)"
    by (simp add: Interpreter_checks_def)
qed

theorem check_no_overlap_adjacent_witness:
  "Interpreter_checks demo_link = Inr () \<and> adjacent_ordered demo_link \<and>
   (data_section demo_overlap, rodata_section demo_overlap) \<in> set (adjacent_pairs demo_overlap) \<and>
   (text_section demo_overlap, data_section demo_overlap) \<in> set (adjacent_pairs demo_overlap) \<and>
   fits (text_section demo_overlap) \<and>
   addresses (text_section demo_overlap) \<inter> addresses (data_section demo_overlap) \<noteq> {} \<and>
   check_no_overlap demo_overlap = Inl RuntimeAssert \<and> isl (Interpreter_checks demo_overlap)"
proof -
  have ok: "Interpreter_checks demo_link = Inr ()"
    by (simp add: Interpreter_checks_def check_no_overlap_def get_start_end_def demo_link_def)
  have pairs: "(text_section demo_overlap, data_section demo_overlap) \<in> set (adjacent_pairs demo_overlap)"
    "(data_section demo_overlap, rodata_section demo_overlap) \<in> set (adjacent_pairs demo_overlap)"
    by (simp_all add: adjacent_pairs_def)
  have f: "fits (text_section demo_overlap)"
    by (simp add: fits_def demo_overlap_def demo_link_def)
  have "(65540::nat) \<in> addresses (text_section demo_overlap) \<inter> addresses (data_section demo_overlap)"
    by (simp add: addresses_def demo_overlap_def demo_link_def)
  then have ov: "addresses (text_section demo_overlap) \<inter> addresses (data_section demo_overlap) \<noteq> {}"
    by blast
  from check_no_overlap_adjacent [of demo_link] ok
  have r1: "adjacent_ordered demo_link" by blast
  from check_no_overlap_adjacent [of demo_overlap "text_section demo_overlap" "data_section demo_overlap"]
    pairs f ov
  have r2: "check_no_overlap demo_overlap = Inl RuntimeAssert \<and> isl (Interpreter_checks demo_overlap)"
    by blast
  from ok r1 pairs f ov r2 show ?thesis by blast
qed

section \<open>Properties of the line helpers\<close>

lemma find_first_of_None: "find_first_of c s = None \<longleftrightarrow> c \<notin> set s"
  by (simp add: find_first_of_def)

lemma find_first_of_Some:
  assumes "find_first_of c s = Some pos"
  shows "c \<in> set s" and "take pos s = takeWhile (\<lambda>x. x \<noteq> c) s"
    and "drop (Suc pos) s = tl (dropWhile (\<lambda>x. x \<noteq> c) s)"
proof -
  from assms show c: "c \<in> set s" by (simp add: find_first_of_def split: if_splits)
  from assms c have pos: "pos = length (takeWhile (\<lambda>x. x \<noteq> c) s)"
    by (simp add: find_first_of_def)
  show "take pos s = takeWhile (\<lambda>x. x \<noteq> c) s"
    unfolding pos by (rule takeWhile_eq_take [symmetric])
  have "tl (dropWhile (\<lambda>x. x \<noteq> c) s) = tl (drop pos s)"
    unfolding pos by (simp only: dropWhile_eq_drop)
  also have "\<dots> = drop (Suc pos) s"
    by (simp add: tl_drop drop_Suc)
  finally show "drop (Suc pos) s = tl (dropWhile (\<lambda>x. x \<noteq> c) s)" ..
qed

lemma takeWhile_front:
  "\<not> isspace c \<Longrightarrow>
   takeWhile (\<lambda>x. x \<noteq> c) (remove_front_whitespace s)
     = remove_front_whitespace (takeWhile (\<lambda>x. x \<noteq> c) s)"
  unfolding remove_front_whitespace_def by (induction s) auto

lemma dropWhile_front:
  "\<not> isspace c \<Longrightarrow>
   dropWhile (\<lambda>x. x \<noteq> c) (remove_front_whitespace s) = dropWhile (\<lambda>x. x \<noteq> c) s"
  unfolding remove_front_whitespace_def by (induction s) auto

lemma set_front: "\<not> isspace c \<Longrightarrow> c \<in> set (remove_front_whitespace s) \<longleftrightarrow> c \<in> set s"
  unfolding remove_front_whitespace_def by (induction s) auto

lemma count_list_split:
  "c \<in> set s \<Longrightarrow> count_list s c = Suc (count_list (tl (dropWhile (\<lambda>x. x \<noteq> c) s)) c)"
  by (induction s) auto

lemma count_list_notin: "c \<notin> set s \<Longrightarrow> count_list s c = 0"
  by (induction s) auto

lemma strip_front: "strip (remove_front_whitespace s) = strip s"
  by (simp add: strip_def remove_front_whitespace_def dropWhile_idem)

lemma pieces_front:
  "\<not> isspace c \<Longrightarrow>
   map strip (pieces k c (remove_front_whitespace s)) = map strip (pieces k c s)"
proof (cases k)
  case 0
  then show ?thesis by (simp add: strip_front)
next
  case (Suc j)
  assume c: "\<not> isspace c"
  have "strip (takeWhile (\<lambda>x. x \<noteq> c) (remove_front_whitespace s))
      = strip (takeWhile (\<lambda>x. x \<noteq> c) s)"
    using c strip_front [of "takeWhile (\<lambda>x. x \<noteq> c) s"]
    by (simp add: takeWhile_front)
  with c Suc show ?thesis
    by (simp add: dropWhile_front)
qed

lemma length_pieces: "length (pieces k c s) = Suc k"
  by (induction k arbitrary: s) auto

declare split_loop.simps [simp del]

lemma split_loop_pieces:
  assumes c: "\<not> isspace c"
  shows "Suc i + k = N - 1 \<Longrightarrow> length ret = N \<Longrightarrow>
    split_loop N c (remove_front_whitespace s) i ret =
      (if count_list s c < Suc k then Inl (FailToParse ''Too few arguments'')
       else Inr (take i ret @ map strip (pieces (Suc k) c s)))"
proof (induction k arbitrary: i s ret)
  case 0
  let ?s = "remove_front_whitespace s"
  show ?case
  proof (cases "find_first_of c ?s")
    case None
    then have "c \<notin> set s"
      using c by (simp add: find_first_of_None set_front)
    then have "count_list s c = 0" by (rule count_list_notin)
    with None show ?thesis by (simp add: split_loop.simps [of N c ?s])
  next
    case (Some pos)
    note f = find_first_of_Some [OF Some]
    from f(1) c have mem: "c \<in> set s"
      by (simp add: set_front)
    then have cnt: "\<not> count_list s c < Suc 0"
      by (simp add: count_list_split)
    have piece: "remove_back_whitespace (take pos ?s) = strip (takeWhile (\<lambda>x. x \<noteq> c) s)"
      using c by (simp add: f(2) strip_def takeWhile_front)
    have rest: "remove_back_whitespace (remove_front_whitespace (drop (pos + 1) ?s))
        = strip (tl (dropWhile (\<lambda>x. x \<noteq> c) s))"
      using c by (simp add: f(3) strip_def dropWhile_front)
    from "0.prems" have len: "length ret = Suc (Suc i)" "N - 1 = Suc i" by simp_all
    have upd: "ret[i := a, Suc i := b] = take i ret @ [a, b]" for a b
      using len(1) by (intro nth_equalityI) (auto simp: nth_append nth_list_update less_Suc_eq)
    show ?thesis
      using Some cnt len(2) piece rest
      by (simp add: split_loop.simps [of N c ?s] Let_def upd)
  qed
next
  case (Suc k)
  let ?s = "remove_front_whitespace s"
  show ?case
  proof (cases "find_first_of c ?s")
    case None
    then have "c \<notin> set s"
      using c by (simp add: find_first_of_None set_front)
    then have "count_list s c = 0" by (rule count_list_notin)
    with None show ?thesis by (simp add: split_loop.simps [of N c ?s])
  next
    case (Some pos)
    note f = find_first_of_Some [OF Some]
    let ?s' = "tl (dropWhile (\<lambda>x. x \<noteq> c) s)"
    let ?a = "strip (takeWhile (\<lambda>x. x \<noteq> c) s)"
    from f(1) c have mem: "c \<in> set s"
      by (simp add: set_front)
    then have cnt: "count_list s c = Suc (count_list ?s' c)"
      by (rule count_list_split)
    have piece: "remove_back_whitespace (take pos ?s) = ?a"
      using c by (simp add: f(2) strip_def takeWhile_front)
    have rest: "remove_front_whitespace (drop (pos + 1) ?s) = remove_front_whitespace ?s'"
      using c by (simp add: f(3) dropWhile_front)
    from Suc.prems have ne: "i + 1 \<noteq> N - 1" and i: "i < length ret" by simp_all
    from Suc.prems have "Suc (Suc i) + k = N - 1" "length (ret[i := ?a]) = N" by simp_all
    from Suc.IH [OF this, of ?s']
    have IH: "split_loop N c (remove_front_whitespace ?s') (Suc i) (ret[i := ?a]) =
        (if count_list ?s' c < Suc k then Inl (FailToParse ''Too few arguments'')
         else Inr (take (Suc i) (ret[i := ?a]) @ map strip (pieces (Suc k) c ?s')))" .
    have tk: "take (Suc i) (ret[i := ?a]) = take i ret @ [?a]"
      using i by (simp add: take_Suc_conv_app_nth)
    have "split_loop N c ?s i ret = split_loop N c (remove_front_whitespace ?s') (Suc i) (ret[i := ?a])"
      using Some ne piece rest by (simp add: split_loop.simps [of N c ?s] Let_def)
    also note IH
    finally show ?thesis
      by (simp add: cnt tk)
  qed
qed


lemma remove_comments_decomment:
  "remove_comments_when_no_string str =
     (if CHR 0x22 \<in> set str then Inl (FailToParse []) else Inr (decomment str))"
proof (cases "find_first_of (CHR ''#'') str")
  case None
  then have "CHR ''#'' \<notin> set str" by (simp add: find_first_of_None)
  then have eq: "takeWhile (\<lambda>x. x \<noteq> CHR ''#'') str = str"
    by (auto simp: takeWhile_eq_all_conv)
  show ?thesis
    by (simp add: remove_comments_when_no_string_def decomment_def None eq)
next
  case (Some pos)
  from find_first_of_Some(2) [OF Some] Some show ?thesis
    by (simp add: remove_comments_when_no_string_def decomment_def)
qed

lemma comma_not_space: "\<not> isspace (CHR '','')"
  by (simp add: isspace_def)

lemma split_command_refines:
  assumes "0 < N"
  shows "split_command N (CHR '','') str =
     (if CHR 0x22 \<in> set str then Inl (FailToParse [])
      else if count_list (decomment str) (CHR '','') < N - 1
        then Inl (FailToParse ''Too few arguments'')
      else Inr (map strip (pieces (N - 1) (CHR '','') (decomment str))))"
proof (cases "N = 1")
  case True
  then show ?thesis
    by (simp add: split_command_def remove_comments_decomment strip_def)
next
  case False
  with assms obtain k where k: "N = Suc (Suc k)"
    by (metis One_nat_def less_imp_Suc_add plus_nat.add_0 not0_implies_Suc)
  have "Suc 0 + k = N - 1" and "length (replicate N ([]::string)) = N"
    by (simp_all add: k)
  from split_loop_pieces [OF comma_not_space this, of "decomment str"]
  show ?thesis
    by (simp add: split_command_def remove_comments_decomment k)
qed

lemma rbw_prefix:
  "\<exists>z. x = remove_back_whitespace x @ z"
proof -
  have "rev (takeWhile isspace (rev x) @ dropWhile isspace (rev x)) = rev (rev x)"
    by (simp only: takeWhile_dropWhile_id)
  then have "remove_back_whitespace x @ rev (takeWhile isspace (rev x)) = x"
    by (simp only: rev_append rev_rev_ident remove_back_whitespace_def)
  then have "x = remove_back_whitespace x @ rev (takeWhile isspace (rev x))" ..
  then show ?thesis ..
qed

lemma stripped_strip: "stripped (strip s)"
proof (cases "strip s")
  case Nil
  then show ?thesis by (simp add: stripped_def)
next
  case (Cons h t)
  let ?x = "remove_front_whitespace s"
  obtain z where z: "?x = strip s @ z"
    using rbw_prefix [of ?x] by (auto simp: strip_def)
  with Cons have x: "?x = h # t @ z" by simp
  from x have d: "dropWhile isspace s = h # t @ z" by (simp add: remove_front_whitespace_def)
  then have "dropWhile isspace s \<noteq> []" by simp
  then have "\<not> isspace (hd (dropWhile isspace s))" by (rule hd_dropWhile)
  with d have h: "\<not> isspace h" by simp
  have ne: "dropWhile isspace (rev ?x) \<noteq> []"
    using Cons by (auto simp: strip_def remove_back_whitespace_def)
  then have "\<not> isspace (hd (dropWhile isspace (rev ?x)))" by (rule hd_dropWhile)
  with ne have "\<not> isspace (last (strip s))"
    by (simp add: strip_def remove_back_whitespace_def last_rev)
  with h Cons show ?thesis by (simp add: stripped_def)
qed

text \<open>
  C8 (amended): \<open>split_command<0>\<close> raises \<open>FailToParse\<close> unless the remainder contains
  no token. For \<open>N \<ge> 1\<close>, \<open>split_command<N>\<close> raises \<open>FailToParse\<close> when the remainder
  contains a double quote, and otherwise cuts the text before the comment at its first
  \<open>N - 1\<close> commas: it raises \<open>FailToParse\<close> ("Too few arguments") exactly when there are
  fewer than \<open>N - 1\<close> commas, and else returns exactly \<open>N\<close> pieces, each with its
  surrounding whitespace stripped, the last piece being all that follows the
  \<open>(N - 1)\<close>-th comma. A piece may be empty; in particular \<open>split_command<1>\<close> on an
  empty remainder returns the one empty token and does not raise.
\<close>

theorem split_command_pieces:
  "split_command 0 indent str = (if contain_no_token str then Inr [] else Inl (FailToParse [])) \<and>
   (0 < N \<longrightarrow>
      split_command N (CHR '','') str =
        (if CHR 0x22 \<in> set str then Inl (FailToParse [])
         else if count_list (decomment str) (CHR '','') < N - 1
           then Inl (FailToParse ''Too few arguments'')
         else Inr (map strip (pieces (N - 1) (CHR '','') (decomment str))))) \<and>
   (split_command N (CHR '','') str = Inr ts \<longrightarrow> length ts = N \<and> (\<forall>t \<in> set ts. stripped t))"
proof (intro conjI impI)
  show "split_command 0 indent str = (if contain_no_token str then Inr [] else Inl (FailToParse []))"
    by (simp add: split_command_def)
next
  assume "0 < N"
  then show "split_command N (CHR '','') str =
        (if CHR 0x22 \<in> set str then Inl (FailToParse [])
         else if count_list (decomment str) (CHR '','') < N - 1
           then Inl (FailToParse ''Too few arguments'')
         else Inr (map strip (pieces (N - 1) (CHR '','') (decomment str))))"
    by (rule split_command_refines)
next
  assume r: "split_command N (CHR '','') str = Inr ts"
  show "length ts = N"
  proof (cases "N = 0")
    case True
    with r show ?thesis by (simp add: split_command_def split: if_splits)
  next
    case False
    with r show ?thesis
      by (auto simp: split_command_refines length_pieces split: if_splits)
  qed
  show "\<forall>t \<in> set ts. stripped t"
  proof (cases "N = 0")
    case True
    with r show ?thesis by (simp add: split_command_def split: if_splits)
  next
    case False
    with r show ?thesis
      by (auto simp: split_command_refines stripped_strip split: if_splits)
  qed
qed

theorem split_command_pieces_witness:
  "split_command 0 (CHR '','') ''  # done'' = Inr [] \<and>
   split_command 0 (CHR '','') '' x'' = Inl (FailToParse []) \<and>
   split_command 2 (CHR '','') '' a ,  b , c # x'' = Inr [''a'', ''b , c''] \<and>
   split_command 3 (CHR '','') ''a, b # , c'' = Inl (FailToParse ''Too few arguments'') \<and>
   split_command 1 (CHR '','') [] = Inr [[]] \<and>
   length [''a'', ''b , c''] = 2 \<and> stripped ''a'' \<and> stripped ''b , c''"
proof -
  note t = split_command_pieces
  have ws: "isspace (CHR '' '')" "\<not> isspace (CHR ''#'')" "\<not> isspace (CHR ''a'')"
    "\<not> isspace (CHR ''b'')" "\<not> isspace (CHR ''c'')" "\<not> isspace (CHR ''x'')"
    "\<not> isspace (CHR '','')"
    by (simp_all add: isspace_def)
  have c0: "contain_no_token ''  # done''" "\<not> contain_no_token '' x''"
    by (simp_all add: contain_no_token_def remove_front_whitespace_def ws)
  from t [of "CHR '',''" "''  # done''"] c0(1)
  have r0: "split_command 0 (CHR '','') ''  # done'' = Inr []" by simp
  from t [of "CHR '',''" "'' x''"] c0(2)
  have r1: "split_command 0 (CHR '','') '' x'' = Inl (FailToParse [])" by simp
  have "split_command 2 (CHR '','') '' a ,  b , c # x''
      = Inr (map strip (pieces 1 (CHR '','') (decomment '' a ,  b , c # x'')))"
    using t [of "CHR '',''" "'' a ,  b , c # x''" 2] by (simp add: decomment_def)
  then have r2: "split_command 2 (CHR '','') '' a ,  b , c # x'' = Inr [''a'', ''b , c'']"
    by (simp add: decomment_def strip_def remove_front_whitespace_def
        remove_back_whitespace_def ws)
  from t [of "CHR '',''" "''a, b # , c''" 3]
  have r3: "split_command 3 (CHR '','') ''a, b # , c'' = Inl (FailToParse ''Too few arguments'')"
    by (simp add: decomment_def)
  from t [of "CHR '',''" "[]" 1]
  have r4: "split_command 1 (CHR '','') [] = Inr [[]]"
    by (simp add: decomment_def strip_def remove_front_whitespace_def remove_back_whitespace_def)
  from t [of "CHR '',''" "'' a ,  b , c # x''" 2 "[''a'', ''b , c'']"] r2
  have r5: "length [''a'', ''b , c''] = 2 \<and> stripped ''a'' \<and> stripped ''b , c''"
    by simp
  from r0 r1 r2 r3 r4 r5 show ?thesis by blast
qed

theorem split_command_one_empty_counterexample:
  "split_command 1 (CHR '','') [] = Inr [[]] \<and> \<not> isl (split_command 1 (CHR '','') [])"
  by (simp add: split_command_def remove_comments_when_no_string_def find_first_of_def
      remove_front_whitespace_def remove_back_whitespace_def)

text \<open>
  C10 (amended): for every line whose first \<open>:\<close> precedes any \<open>"\<close> and has nothing
  before it, the empty label passes \<open>is_valid_label\<close>, and \<open>start_with_label\<close> returns
  the empty label when the text after the \<open>:\<close> contains no token; when a token follows,
  it raises \<open>FailToParse\<close> ("Unexpected token after label").
\<close>

theorem empty_label_accepted:
  assumes "find_first_of (CHR '':'') str = Some p"
    and "\<forall>q. find_first_of (CHR 0x22) str = Some q \<longrightarrow> p < q"
    and "take p str = []"
  shows "is_valid_label (take p str) \<and>
    start_with_label str =
      (if contain_no_token (drop (p + 1) str) then Inr (Some [])
       else Inl (FailToParse ''Unexpected token after label''))"
proof -
  have v: "is_valid_label (take p str)" by (simp add: is_valid_label_def assms(3))
  from assms(2) have before: "(case find_first_of (CHR 0x22) str of None \<Rightarrow> True | Some p1 \<Rightarrow> p < p1)"
    by (simp split: option.splits)
  show ?thesis
    using before
    by (simp add: start_with_label_def assms(1) assms(3) Let_def is_valid_label_def)
qed

theorem empty_label_accepted_witness:
  "find_first_of (CHR '':'') '':  # entry'' = Some 0 \<and>
   find_first_of (CHR 0x22) '':  # entry'' = None \<and>
   take 0 '':  # entry'' = [] \<and>
   is_valid_label [] \<and>
   start_with_label '':  # entry'' = Inr (Some [])"
proof -
  have h1: "find_first_of (CHR '':'') '':  # entry'' = Some 0"
    by (simp add: find_first_of_def)
  have n: "find_first_of (CHR 0x22) '':  # entry'' = None"
    by (simp add: find_first_of_def)
  then have h2: "\<forall>q. find_first_of (CHR 0x22) '':  # entry'' = Some q \<longrightarrow> 0 < q"
    by simp
  have h3: "take 0 '':  # entry'' = []" by simp
  have c: "contain_no_token (drop (0 + 1) '':  # entry'')"
    by (simp add: contain_no_token_def remove_front_whitespace_def isspace_def)
  from empty_label_accepted [OF h1 h2 h3] c
  have "is_valid_label [] \<and> start_with_label '':  # entry'' = Inr (Some [])"
    by simp
  with h1 n h3 show ?thesis by blast
qed

theorem empty_label_rest_counterexample:
  "find_first_of (CHR '':'') '':x'' = Some 0 \<and>
   find_first_of (CHR 0x22) '':x'' = None \<and>
   take 0 '':x'' = [] \<and>
   start_with_label '':x'' = Inl (FailToParse ''Unexpected token after label'')"
  by (simp add: find_first_of_def start_with_label_def is_valid_label_def contain_no_token_def
      remove_front_whitespace_def isspace_def)

section \<open>Properties of the top-level loop\<close>

declare simulate_loop.simps [simp del]

lemma unat_pred: "(timeout :: size_t) \<noteq> 0 \<Longrightarrow> unat (timeout - 1) = unat timeout - 1"
  by (simp add: unat_minus_one)

lemma not_pos_timeout: "\<not> 0 < (timeout :: size_t) \<longleftrightarrow> timeout = 0"
  using word_neq_0_conv [of timeout] by blast

lemma simulate_loop_retired:
  "n \<le> retired (simulate_loop m s timeout n) \<and>
   retired (simulate_loop m s timeout n) \<le> n + unat timeout"
proof (induction m s timeout n rule: simulate_loop.induct)
  case (1 m s timeout n)
  obtain continue s1 where a: "advance m s = (continue, s1)" by (cases "advance m s")
  obtain s2 t where f: "fetch_execute m s1 = (s2, t)" by (cases "fetch_execute m s1")
  show ?case
  proof (cases "continue \<and> 0 < timeout \<and> t = None")
    case True
    then have "timeout \<noteq> 0" by auto
    then have u: "unat (timeout - 1) = unat timeout - 1" and p: "0 < unat timeout"
      by (simp_all add: unat_pred unat_gt_0)
    from True a f have IH: "n + 1 \<le> retired (simulate_loop m s2 (timeout - 1) (n + 1)) \<and>
        retired (simulate_loop m s2 (timeout - 1) (n + 1)) \<le> n + 1 + unat (timeout - 1)"
      by (intro "1.IH" [of "(continue, s1)" continue s1 "(s2, t)" s2 t]) auto
    have "simulate_loop m s timeout n = simulate_loop m s2 (timeout - 1) (n + 1)"
      using True a f by (simp add: simulate_loop.simps [of m s timeout n])
    with IH u p show ?thesis by simp
  next
    case False
    then show ?thesis
      using a f by (auto simp: simulate_loop.simps [of m s timeout n] split: option.splits)
  qed
qed

lemma simulate_loop_timeout:
  "(left_by (simulate_loop m s timeout n) = TimeoutZero \<longrightarrow>
      final_timeout (simulate_loop m s timeout n) = - 1 \<and>
      retired (simulate_loop m s timeout n) = n + unat timeout) \<and>
   (left_by (simulate_loop m s timeout n) = AdvanceFalse \<longrightarrow>
      unat (final_timeout (simulate_loop m s timeout n)) + retired (simulate_loop m s timeout n)
        = n + unat timeout)"
proof (induction m s timeout n rule: simulate_loop.induct)
  case (1 m s timeout n)
  obtain continue s1 where a: "advance m s = (continue, s1)" by (cases "advance m s")
  obtain s2 t where f: "fetch_execute m s1 = (s2, t)" by (cases "fetch_execute m s1")
  show ?case
  proof (cases "continue \<and> 0 < timeout \<and> t = None")
    case True
    then have "timeout \<noteq> 0" by auto
    then have u: "unat (timeout - 1) = unat timeout - 1" and p: "0 < unat timeout"
      by (simp_all add: unat_pred unat_gt_0)
    let ?r = "simulate_loop m s2 (timeout - 1) (n + 1)"
    from True a f have IH: "(left_by ?r = TimeoutZero \<longrightarrow>
          final_timeout ?r = - 1 \<and> retired ?r = n + 1 + unat (timeout - 1)) \<and>
        (left_by ?r = AdvanceFalse \<longrightarrow>
          unat (final_timeout ?r) + retired ?r = n + 1 + unat (timeout - 1))"
      by (intro "1.IH" [of "(continue, s1)" continue s1 "(s2, t)" s2 t]) auto
    have "simulate_loop m s timeout n = ?r"
      using True a f by (simp add: simulate_loop.simps [of m s timeout n])
    with IH u p show ?thesis by simp
  next
    case False
    then show ?thesis
      using a f by (auto simp: simulate_loop.simps [of m s timeout n] not_pos_timeout split: option.splits)
  qed
qed


lemma simulate_normal_clean:
  assumes "timeout \<noteq> - 1"
  shows "(left_by (simulate_loop m s timeout 0) = TimeoutZero \<longrightarrow>
            retired (simulate_loop m s timeout 0) = unat timeout \<and>
            simulate_normal m s timeout = Raised (PanicError ''Time Limit Exceeded'')) \<and>
         (left_by (simulate_loop m s timeout 0) = AdvanceFalse \<longrightarrow>
            simulate_normal m s timeout = Returned (final_state (simulate_loop m s timeout 0)))"
proof (intro conjI impI)
  let ?r = "simulate_loop m s timeout 0"
  note t = simulate_loop_timeout [of m s timeout 0]
  {
    assume l: "left_by ?r = TimeoutZero"
    with t show "retired ?r = unat timeout" by simp
    from l t have "final_timeout ?r + 1 = 0" by simp
    with l show "simulate_normal m s timeout = Raised (PanicError ''Time Limit Exceeded'')"
      by (simp add: simulate_normal_def Let_def)
  }
  {
    assume l: "left_by ?r = AdvanceFalse"
    with t have "unat (final_timeout ?r) \<le> unat timeout" by simp
    moreover from assms have "unat timeout < unat (- 1 :: size_t)"
      by (metis word_less_nat_alt word_order.not_eq_extremum)
    ultimately have "final_timeout ?r \<noteq> - 1" by auto
    then have "final_timeout ?r + 1 \<noteq> 0"
      using eq_neg_iff_add_eq_0 [of "final_timeout ?r" 1] by simp
    with l show "simulate_normal m s timeout = Returned (final_state ?r)"
      by (simp add: simulate_normal_def Let_def)
  }
qed

lemma spinning_times_out:
  "left_by (simulate_loop spinning_machine () timeout n) = TimeoutZero"
proof (induction "unat timeout" arbitrary: timeout n)
  case 0
  then have "timeout = 0" by (simp add: unat_eq_0)
  then show ?case
    by (subst simulate_loop.simps) (simp add: spinning_machine_def)
next
  case (Suc k)
  then have nz: "timeout \<noteq> 0" by auto
  with Suc.hyps(2) have "k = unat (timeout - 1)" by (simp add: unat_pred)
  then have "left_by (simulate_loop spinning_machine () (timeout - 1) (n + 1)) = TimeoutZero"
    by (rule Suc.hyps(1))
  moreover from nz have "0 < timeout" by (simp add: word_neq_0_conv)
  ultimately show ?case
    by (subst simulate_loop.simps) (simp add: spinning_machine_def)
qed

lemma spinning_1000:
  "retired (simulate_loop spinning_machine () 1000 0) = 1000 \<and>
   simulate_normal spinning_machine () 1000 = Raised (PanicError ''Time Limit Exceeded'')"
  using simulate_normal_clean [of 1000 spinning_machine "()"] spinning_times_out [of 1000 0]
  by simp

text \<open>
  C4: with the timeout \<open>2^64 - 1\<close> and a guest whose first \<open>advance()\<close> returns false, the
  loop retires nothing and is left because \<open>advance()\<close> returned false, and yet
  \<open>simulate_normal\<close> panics with "Time Limit Exceeded": the test \<open>timeout + 1 == 0\<close> cannot
  tell the untouched timeout \<open>2^64 - 1\<close> from the one that wrapped at 0. (For every other
  timeout the loop behaves as claimed: \<open>simulate_loop_retired\<close>, \<open>simulate_normal_clean\<close>.)
\<close>

theorem timeout_sentinel_collision:
  "left_by (simulate_loop halted_machine () (- 1) 0) = AdvanceFalse \<and>
   retired (simulate_loop halted_machine () (- 1) 0) = 0 \<and>
   simulate_normal halted_machine () (- 1) = Raised (PanicError ''Time Limit Exceeded'')"
proof -
  have loop: "simulate_loop halted_machine () (- 1) 0 =
      \<lparr>final_state = (), final_timeout = - 1, retired = 0, left_by = AdvanceFalse\<rparr>"
    by (subst simulate_loop.simps) (simp add: halted_machine_def)
  then show ?thesis
    by (simp add: simulate_normal_def)
qed

section \<open>Properties of the driver\<close>

text \<open>
  C1 (amended): \<open>main\<close> returns the exit code 0 exactly when the run terminates normally
  or is aborted by a panic (the \<open>PanicError\<close> sentinel, as raised for a link error, for
  "Time Limit Exceeded" or for a \<open>FailToInterpret\<close> trap): the handler of \<open>PanicError\<close> is
  empty and falls through to \<open>return 0\<close>. In every other case \<open>main\<close> does not return but
  ends in \<open>unreachable\<close>; it never returns a non-zero code.
\<close>

theorem main_exit_code:
  "(main build simulation = Exit 0 \<longleftrightarrow>
      try_block build simulation = Returned () \<or>
      (\<exists>msg. try_block build simulation = Raised (PanicError msg))) \<and>
   (main build simulation = Exit 0 \<or> (\<exists>msg. main build simulation = NoReturn msg))"
  by (simp add: main_def split: outcome.splits thrown.splits)

theorem panic_exits_zero_counterexample:
  "simulate_normal trapping_machine () 1000 = Raised (PanicError ''Unknown instruction'') \<and>
   main (Returned ()) (simulate_normal trapping_machine () 1000) = Exit 0 \<and>
   main (Raised (PanicError ''No main function found'')) (Returned ()) = Exit 0"
proof -
  have loop: "simulate_loop trapping_machine () 1000 0 =
      \<lparr>final_state = (), final_timeout = 999, retired = 0,
       left_by = Threw (FailToInterpret \<lparr>error = InsUnknown, address = 0, detail = 0\<rparr>)\<rparr>"
    by (subst simulate_loop.simps) (simp add: trapping_machine_def)
  then have "simulate_normal trapping_machine () 1000 = Raised (PanicError ''Unknown instruction'')"
    by (simp add: simulate_normal_def trapping_machine_def)
  then show ?thesis
    by (simp add: main_def try_block_def)
qed

section \<open>Properties of the disassembler\<close>

declare hex_digits.simps [simp del] dec_digits.simps [simp del]

lemma match_default:
  assumes "key \<notin> fst ` set table"
  shows "match_and_return table key suffix cmd = default_format cmd"
proof -
  from assms have "map_of table key = None" by (rule map_of_eq_None_iff [THEN iffD2])
  then show ?thesis by (simp add: match_and_return_def)
qed

lemma opcodes_distinct:
  "opcode f = opcode g \<longleftrightarrow> f = g"
  by (cases f; cases g) (simp_all add: opcode_def)

lemma unknown_is_default:
  assumes "\<not> canonical cmd"
  shows "pretty_command h cmd = default_format cmd"
proof (cases "\<exists>f. get_opcode cmd = opcode f")
  case False
  then have "get_opcode cmd \<noteq> opcode f" for f by blast
  then show ?thesis
    by (simp add: pretty_command_def Let_def)
next
  case True
  then obtain f where f: "get_opcode cmd = opcode f" ..
  show ?thesis
  proof (cases f)
    case R_type
    with assms f have "join (get_funct7 cmd) (get_funct3 cmd) \<notin> fst ` set r_type_table"
      by (simp add: canonical_def Let_def)
    with f R_type show ?thesis
      by (simp add: pretty_command_def pretty_r_type_def Let_def match_default)
  next
    case I_type
    with assms f have n: "get_funct3 cmd \<notin> fst ` set i_type_table"
      "\<not> (get_funct3 cmd = 0x1 \<and> get_funct7 cmd = 0x00)"
      "\<not> (get_funct3 cmd = 0x5 \<and> (get_funct7 cmd = 0x00 \<or> get_funct7 cmd = 0x20))"
      by (simp_all add: canonical_def Let_def)
    from f I_type have "pretty_command h cmd = pretty_i_type h cmd"
      by (simp add: pretty_command_def Let_def opcodes_distinct)
    also from n have "\<dots> = default_format cmd"
      by (auto simp: pretty_i_type_def Let_def match_default)
    finally show ?thesis .
  next
    case S_type
    with assms f have "get_funct3 cmd \<notin> fst ` set s_type_table"
      by (simp add: canonical_def Let_def)
    with f S_type show ?thesis
      by (simp add: pretty_command_def pretty_s_type_def Let_def match_default opcodes_distinct)
  next
    case L_type
    with assms f have "get_funct3 cmd \<notin> fst ` set l_type_table"
      by (simp add: canonical_def Let_def)
    with f L_type show ?thesis
      by (simp add: pretty_command_def pretty_l_type_def Let_def match_default opcodes_distinct)
  next
    case B_type
    with assms f have "get_funct3 cmd \<notin> fst ` set b_type_table"
      by (simp add: canonical_def Let_def)
    with f B_type show ?thesis
      by (simp add: pretty_command_def pretty_b_type_def Let_def match_default opcodes_distinct)
  next
    case Jal
    with assms f show ?thesis by (simp add: canonical_def Let_def)
  next
    case Jalr
    with assms f show ?thesis by (simp add: canonical_def Let_def)
  next
    case Lui
    with assms f show ?thesis by (simp add: canonical_def Let_def)
  next
    case Auipc
    with assms f show ?thesis by (simp add: canonical_def Let_def)
  qed
qed

lemma unknown_rendering:
  "\<not> canonical cmd \<Longrightarrow>
   pretty_command h cmd = ''0x0x'' @ hex_digits (unat cmd) \<and>
   pretty_command h cmd \<noteq> claimed_format cmd"
proof -
  assume "\<not> canonical cmd"
  then have p: "pretty_command h cmd = ''0x0x'' @ hex_digits (unat cmd)"
    by (simp add: unknown_is_default default_format_def format_alt_hex_def)
  have "length (pretty_command h cmd) \<noteq> length (claimed_format cmd)"
    by (simp add: p claimed_format_def)
  then have "pretty_command h cmd \<noteq> claimed_format cmd" by auto
  with p show ?thesis by simp
qed

text \<open>Two canonical words, \<open>add x10, x10, x10\<close> and \<open>addi x10, x10, -5\<close>, for comparison.\<close>

lemma dec10: "dec_digits 10 = ''10''"
  by (simp add: dec_digits.simps [of 10] dec_digits.simps [of "Suc 0"] dec_digits.simps [of 0] dec_digit_def)

lemma dec5: "dec_digits 5 = ''5''"
  by (simp add: dec_digits.simps [of 5] dec_digit_def)

lemma fields_add:
  "get_opcode 0x00A50533 = 0x33" "get_rd 0x00A50533 = 10" "get_rs1 0x00A50533 = 10"
  "get_rs2 0x00A50533 = 10" "get_funct3 0x00A50533 = 0" "get_funct7 0x00A50533 = 0"
  by (simp_all add: get_opcode_def get_rd_def get_rs1_def get_rs2_def get_funct3_def get_funct7_def)

lemma pretty_add: "pretty_command demo_riscv 0x00A50533 = ''add x10, x10, x10''"
  by (simp add: pretty_command_def pretty_r_type_def fields_add opcode_def match_and_return_def
      r_type_table_def join_def suffix3_def demo_riscv_def dec10)

lemma fields_addi:
  "get_opcode 0xFFB50513 = 0x13" "get_rd 0xFFB50513 = 10" "get_rs1 0xFFB50513 = 10"
  "get_funct3 0xFFB50513 = 0" "get_funct7 0xFFB50513 = 0x7F"
  by (simp_all add: get_opcode_def get_rd_def get_rs1_def get_rs2_def get_funct3_def get_funct7_def)

lemma pretty_addi: "pretty_command demo_riscv 0xFFB50513 = ''addi x10, x10, -5''"
  by (simp add: pretty_command_def pretty_i_type_def fields_addi opcode_def match_and_return_def
      i_type_table_def suffix3_def demo_riscv_def dec10 dec5 format_dec_def)

text \<open>
  C5: a word that is not canonical is rendered by \<open>default_format\<close>, whose format string
  \<open>"0x{:#x}"\<close> prints a literal \<open>0x\<close> and then the alternate form, which has a \<open>0x\<close> of its
  own: the words 0 and \<open>0xFFFFFFFF\<close> come out as \<open>0x0x0\<close> and \<open>0x0xffffffff\<close>, not as \<open>0x\<close>
  immediately followed by their digits (\<open>0x0\<close> for the word 0).
\<close>

theorem unknown_word_doubled_prefix:
  "\<not> canonical 0 \<and> pretty_command h 0 = ''0x0x0'' \<and> claimed_format 0 = ''0x0'' \<and>
   \<not> canonical 0xFFFFFFFF \<and> pretty_command h 0xFFFFFFFF = ''0x0xffffffff''"
proof -
  have z: "get_opcode 0 = 0" "get_opcode 0xFFFFFFFF = 0x7F"
    by (simp_all add: get_opcode_def)
  have n: "\<not> canonical 0" "\<not> canonical 0xFFFFFFFF"
    by (simp_all add: canonical_def z opcode_def)
  have h0: "hex_digits 0 = ''0''"
    by (simp add: hex_digits.simps [of 0] hex_digit_def)
  have hf: "hex_digits 4294967295 = ''ffffffff''"
    by (simp add: hex_digits.simps [of 4294967295] hex_digits.simps [of 268435455]
      hex_digits.simps [of 16777215] hex_digits.simps [of 1048575] hex_digits.simps [of 65535]
      hex_digits.simps [of 4095] hex_digits.simps [of 255] hex_digits.simps [of 15] hex_digit_def)
  from n unknown_is_default show ?thesis
    by (simp add: default_format_def format_alt_hex_def claimed_format_def h0 hf)
qed

end
